theory Spec2Isabelle
  imports Complex_Main
begin

section \<open>Strings as the drill tool uses them\<close>

text \<open>
  A string is a list of code units. The model covers the code units below 256 (the type
  \<^typ>\<open>char\<close>), on which ECMAScript's \<^verbatim>\<open>toLowerCase\<close> acts unit by unit: the
  capital letters A to Z and the capital letters U+00C0 to U+00DE (the multiplication sign
  U+00D7 apart) move up by 32, every other unit stays.
\<close>

definition lower_unit :: "char \<Rightarrow> char" where
  "lower_unit c =
     (let n = (of_char c :: nat)
      in if (65 \<le> n \<and> n \<le> 90) \<or> (192 \<le> n \<and> n \<le> 222 \<and> n \<noteq> 215)
         then char_of (n + 32) else c)"

definition toLowerCase :: "string \<Rightarrow> string" where
  "toLowerCase s = map lower_unit s"

text \<open>
  The units that \<^verbatim>\<open>trim\<close> strips, below 256: TAB, LF, VT, FF, CR, SPACE and the
  no-break space U+00A0.
\<close>

definition is_white_space :: "char \<Rightarrow> bool" where
  "is_white_space c =
     (let n = (of_char c :: nat)
      in (9 \<le> n \<and> n \<le> 13) \<or> n = 32 \<or> n = 160)"

definition trim :: "string \<Rightarrow> string" where
  "trim s = rev (dropWhile is_white_space (rev (dropWhile is_white_space s)))"

text \<open>
  \<^verbatim>\<open>s.split(sep)\<close> for a separator of one unit: the pieces between the separators,
  so the empty string gives one empty piece.
\<close>

fun split_on :: "char \<Rightarrow> string \<Rightarrow> string list" where
  "split_on sep [] = ['''']"
| "split_on sep (c # cs) =
     (if c = sep then [] # split_on sep cs
      else (case split_on sep cs of
              [] \<Rightarrow> [c # []]
            | p # ps \<Rightarrow> (c # p) # ps))"

text \<open>\<^verbatim>\<open>parts.join(sep)\<close>.\<close>

fun join_with :: "string \<Rightarrow> string list \<Rightarrow> string" where
  "join_with sep [] = []"
| "join_with sep [p] = p"
| "join_with sep (p # q # ps) = p @ sep @ join_with sep (q # ps)"

section \<open>Drill items and the target list\<close>

record drill_item =
  key :: string
  display :: string
  path :: string
  category :: string

text \<open>
  The arrow function mapped over the lines in \<^verbatim>\<open>loadTargets\<close>: \<open>None\<close> is the
  \<^verbatim>\<open>null\<close> of a malformed line.
\<close>

definition parse_line :: "string \<Rightarrow> drill_item option" where
  "parse_line line =
     (let parts = map trim (split_on CHR '','' line)
      in if length parts = 4
         then Some \<lparr>key = parts ! 0, display = parts ! 1, path = parts ! 2, category = parts ! 3\<rparr>
         else None)"

definition text_lines :: "string \<Rightarrow> string list" where
  "text_lines txt = split_on CHR 0x0A (trim txt)"

definition parse_targets :: "string \<Rightarrow> drill_item list" where
  "parse_targets txt =
     map the (filter (\<lambda>item. item \<noteq> None) (map parse_line (text_lines txt)))"

text \<open>The phrase list of \<^verbatim>\<open>setupRecognizer\<close>.\<close>

definition grammarList :: "drill_item list \<Rightarrow> string list" where
  "grammarList ts = map (\<lambda>t. join_with '' '' (split_on CHR ''_'' (toLowerCase (key t)))) ts"

section \<open>The session state\<close>

text \<open>
  \<^verbatim>\<open>currentTargetIndex\<close> is a number: a non-negative integer, or \<^verbatim>\<open>NaN\<close>, which
  the remainder by a length of zero yields.
\<close>

datatype js_number = Num nat | NaN

text \<open>
  What a \<^verbatim>\<open>textContent\<close> holds. The template strings of the source are constructors:
  \<^item> \<open>Loaded_targets n\<close> is \<^verbatim>\<open>Loaded ${n} targets. Click Start.\<close>;
  \<^item> \<open>Target_error m\<close> is \<^verbatim>\<open>Target Error: ${m}. Check console.\<close>;
  \<^item> \<open>Failed_to_recognize\<close> is the cross mark and \<^verbatim>\<open>Failed to recognize speech.\<close>;
  \<^item> \<open>Correct c\<close> is the check mark and \<^verbatim>\<open>CORRECT! (Confidence: ${Math.round(c * 100)}%)\<close>;
  \<^item> \<open>Try_again w c\<close> is the cross mark and
    \<^verbatim>\<open>TRY AGAIN. (Heard: "${w}", Confidence: ${Math.round(c * 100)}%)\<close>;
  \<^item> \<open>Mic_error n\<close> is
    \<^verbatim>\<open>Mic Error: ${n}. Ensure mic is connected and permissions are granted.\<close>;
  \<^item> \<open>Page_markup\<close> is what the page holds before the script writes the element.
  The confidence is kept as it is; the rounded percentage is not computed.
\<close>

datatype text_content =
    Page_markup
  | Text string
  | Loaded_targets nat
  | Target_error string
  | Failed_to_recognize
  | Correct rat
  | Try_again string rat
  | Mic_error string

text \<open>
  Calls on the capture pipeline, in the order they happen. An audio context, a media
  stream and a script processor are each named by the number they got when created.
\<close>

datatype effect =
    Context_created nat
  | Stream_acquired nat
  | Processor_created nat
  | Recognizer_reset
  | Tracks_stopped nat
  | Processor_disconnected nat
  | Context_closed nat

datatype teardown_step = Stop_tracks | Disconnect_processor | Close_context

datatype js_error = TypeError | Step_failed teardown_step

text \<open>
  The globals of \<^verbatim>\<open>app.js\<close>, the properties of the page elements that it reads or
  writes, and the environment: the calls made so far and the next fresh object number.
  \<open>recognizer\<close> holds the \<^verbatim>\<open>root\<close> rule of the grammar it was built with.
\<close>

record app_state =
  recognizer :: "string option"
  currentTargetIndex :: js_number
  targets :: "drill_item list"
  audioContext :: "nat option"
  mediaStream :: "nat option"
  processor :: "nat option"
  startButton_disabled :: bool
  nextButton_disabled :: bool
  imageDisplay_src :: "string option"
  promptText :: text_content
  feedbackArea :: text_content
  feedbackArea_color :: "string option"
  transcriptArea :: text_content
  effects :: "effect list"
  next_object :: nat

text \<open>
  The state when the script has run its top level: the globals as initialised, the page
  as its markup has it. Whether the markup disables the two buttons is not in the script.
\<close>

definition initial_state :: "bool \<Rightarrow> bool \<Rightarrow> app_state" where
  "initial_state start_disabled next_disabled =
     \<lparr>recognizer = None, currentTargetIndex = Num 0, targets = [],
      audioContext = None, mediaStream = None, processor = None,
      startButton_disabled = start_disabled, nextButton_disabled = next_disabled,
      imageDisplay_src = None, promptText = Page_markup, feedbackArea = Page_markup,
      feedbackArea_color = None, transcriptArea = Page_markup,
      effects = [], next_object = 0\<rparr>"

subsection \<open>Loading the targets\<close>

text \<open>
  How the fetch of \<^verbatim>\<open>target.txt\<close> ends: rejected with an error message, or a response
  with its \<^verbatim>\<open>ok\<close> flag and body.
\<close>

datatype fetch_outcome = Rejected string | Response bool string

definition loadTargets :: "fetch_outcome \<Rightarrow> app_state \<Rightarrow> app_state" where
  "loadTargets f s =
     (case f of
        Rejected msg \<Rightarrow> s\<lparr>promptText := Target_error msg\<rparr>
      | Response ok body \<Rightarrow>
          if \<not> ok
          then s\<lparr>promptText :=
                   Target_error ''Could not find target.txt. Did you name it correctly?''\<rparr>
          else
            let s1 = s\<lparr>targets := parse_targets body\<rparr>
            in if length (targets s1) = 0
               then s1\<lparr>promptText :=
                          Text ''Error: Targets file is empty or formatted incorrectly.''\<rparr>
               else s1\<lparr>promptText := Loaded_targets (length (targets s1)),
                        nextButton_disabled := False\<rparr>)"

text \<open>\<^verbatim>\<open>targets[currentTargetIndex]\<close>: \<open>None\<close> is \<^verbatim>\<open>undefined\<close>.\<close>

definition current_target :: "app_state \<Rightarrow> drill_item option" where
  "current_target s =
     (case currentTargetIndex s of
        NaN \<Rightarrow> None
      | Num i \<Rightarrow> if i < length (targets s) then Some (targets s ! i) else None)"

text \<open>
  A function that can throw returns the error, if any, with the state as the throw
  left it: what was assigned before stays assigned.
\<close>

definition updateTarget :: "app_state \<Rightarrow> js_error option \<times> app_state" where
  \<open>updateTarget s =
     (if length (targets s) = 0 then (None, s)
      else case current_target s of
             None \<Rightarrow> (Some TypeError, s)
           | Some target \<Rightarrow>
               (None, s\<lparr>imageDisplay_src := Some (path target),
                         promptText := Text (display target),
                         feedbackArea := Text [],
                         transcriptArea := Text ''Click "Start Recognition" when ready.'',
                         startButton_disabled := False\<rparr>))\<close>

text \<open>The \<^verbatim>\<open>load\<close> listener: \<^verbatim>\<open>loadTargets().then(updateTarget)\<close>.\<close>

definition window_load :: "fetch_outcome \<Rightarrow> app_state \<Rightarrow> js_error option \<times> app_state" where
  "window_load f s = updateTarget (loadTargets f s)"

text \<open>\<^verbatim>\<open>(currentTargetIndex + 1) % targets.length\<close>.\<close>

definition next_index :: "js_number \<Rightarrow> nat \<Rightarrow> js_number" where
  "next_index i n =
     (case i of
        NaN \<Rightarrow> NaN
      | Num k \<Rightarrow> if n = 0 then NaN else Num ((k + 1) mod n))"

definition nextTarget :: "app_state \<Rightarrow> js_error option \<times> app_state" where
  "nextTarget s =
     updateTarget (s\<lparr>currentTargetIndex :=
                        next_index (currentTargetIndex s) (length (targets s))\<rparr>)"

subsection \<open>The recognizer and the check of its result\<close>

definition setupRecognizer :: "app_state \<Rightarrow> app_state" where
  "setupRecognizer s =
     (if length (targets s) = 0 then s
      else s\<lparr>recognizer := Some (join_with '' | '' (grammarList (targets s)))\<rparr>)"

text \<open>
  The parsed final result: its \<^verbatim>\<open>text\<close> and its \<^verbatim>\<open>alternatives\<close>, each
  \<open>None\<close> when the member is absent. An alternative has its \<^verbatim>\<open>text\<close>, a string, and
  its \<^verbatim>\<open>conf\<close>, \<open>None\<close> when absent. A confidence is the rational value of the
  double.
\<close>

record alternative =
  alt_text :: string
  alt_conf :: "rat option"

record recognition_result =
  result_text :: "string option"
  alternatives :: "alternative list option"

text \<open>\<^verbatim>\<open>finalResult.text\<close> is truthy: the text is there and is not the empty string.\<close>

definition has_text :: "recognition_result \<Rightarrow> bool" where
  "has_text result = (case result_text result of None \<Rightarrow> False | Some w \<Rightarrow> w \<noteq> [])"

text \<open>The double that the literal \<^verbatim>\<open>0.30\<close> denotes: the nearest one to three tenths.\<close>

definition CONFIDENCE_THRESHOLD :: rat where
  "CONFIDENCE_THRESHOLD = 5404319552844595 / 2 ^ 54"

text \<open>The form of the current key that the recognized word is compared with.\<close>

definition targetKey :: "string \<Rightarrow> string" where
  "targetKey k = join_with '' '' (split_on CHR ''_'' (trim (toLowerCase k)))"

definition bestAlternative :: "recognition_result \<Rightarrow> alternative option" where
  "bestAlternative result =
     (case alternatives result of
        None \<Rightarrow> None
      | Some alts \<Rightarrow> (case alts of [] \<Rightarrow> None | a # _ \<Rightarrow> Some a))"

text \<open>\<^verbatim>\<open>bestAlternative.conf || 0\<close>: an absent confidence and the confidence zero are falsy.\<close>

definition confidence :: "alternative \<Rightarrow> rat" where
  "confidence a = (case alt_conf a of None \<Rightarrow> 0 | Some c \<Rightarrow> if c = 0 then 0 else c)"

text \<open>
  The function first lower-cases and trims \<^verbatim>\<open>result.text\<close>, which throws when the
  text is absent, into a constant that it never reads again; then it reads the key of the
  current target, which throws when there is none. The word it compares is the text of the
  first alternative.
\<close>

definition checkResult :: "recognition_result \<Rightarrow> app_state \<Rightarrow> js_error option \<times> app_state" where
  "checkResult result s =
     (case result_text result of
        None \<Rightarrow> (Some TypeError, s)
      | Some w \<Rightarrow>
          let recognizedText = trim (toLowerCase w)
          in case current_target s of
               None \<Rightarrow> (Some TypeError, s)
             | Some target \<Rightarrow>
                 (case bestAlternative result of
                    None \<Rightarrow>
                      (None, s\<lparr>feedbackArea := Failed_to_recognize,
                                feedbackArea_color := Some ''red''\<rparr>)
                  | Some a \<Rightarrow>
                      let recognizedWord = trim (toLowerCase (alt_text a));
                          isCorrect = (recognizedWord = targetKey (key target)
                                         \<and> confidence a \<ge> CONFIDENCE_THRESHOLD);
                          s1 = (if isCorrect
                                then s\<lparr>feedbackArea := Correct (confidence a),
                                        feedbackArea_color := Some ''green''\<rparr>
                                else s\<lparr>feedbackArea := Try_again recognizedWord (confidence a),
                                        feedbackArea_color := Some ''red''\<rparr>)
                      in (None, s1\<lparr>transcriptArea := Text ''Recognition Complete.''\<rparr>)))"

subsection \<open>Starting and stopping the capture\<close>

text \<open>How \<^verbatim>\<open>getUserMedia\<close> ends: a stream, or an error with its name.\<close>

datatype mic_outcome = Granted | Denied string

definition startRecognition :: "mic_outcome \<Rightarrow> app_state \<Rightarrow> app_state" where
  "startRecognition mic s =
     (case recognizer s of
        None \<Rightarrow>
          setupRecognizer (s\<lparr>feedbackArea := Text ''Initializing recognizer... Please wait.''\<rparr>)
      | Some g \<Rightarrow>
          let s1 = s\<lparr>startButton_disabled := True,
                     feedbackArea := Text ''... LISTENING ...'',
                     feedbackArea_color := Some ''blue''\<rparr>;
              ctx = next_object s1;
              s2 = s1\<lparr>audioContext := Some ctx,
                      effects := effects s1 @ [Context_created ctx],
                      next_object := ctx + 1\<rparr>
          in case mic of
               Denied name \<Rightarrow>
                 s2\<lparr>startButton_disabled := False,
                    feedbackArea := Mic_error name,
                    feedbackArea_color := Some ''red''\<rparr>
             | Granted \<Rightarrow>
                 let stream = next_object s2;
                     s3 = s2\<lparr>mediaStream := Some stream,
                             effects := effects s2 @ [Stream_acquired stream],
                             next_object := stream + 1\<rparr>;
                     proc = next_object s3
                 in s3\<lparr>processor := Some proc,
                       effects := effects s3 @ [Processor_created proc, Recognizer_reset],
                       next_object := proc + 1\<rparr>)"

text \<open>
  \<open>failing\<close> lists the teardown calls that throw when made. A call is made only on a
  global that is set; a call that throws leaves no effect and ends the function.
\<close>

definition stopRecognition :: "teardown_step list \<Rightarrow> app_state \<Rightarrow> js_error option \<times> app_state" where
  "stopRecognition failing s =
     (let s1 = s\<lparr>startButton_disabled := False\<rparr>
      in if mediaStream s1 \<noteq> None \<and> Stop_tracks \<in> set failing
         then (Some (Step_failed Stop_tracks), s1)
         else
           let s2 = (case mediaStream s1 of
                       None \<Rightarrow> s1
                     | Some m \<Rightarrow> s1\<lparr>effects := effects s1 @ [Tracks_stopped m]\<rparr>)
           in if processor s2 \<noteq> None \<and> Disconnect_processor \<in> set failing
              then (Some (Step_failed Disconnect_processor), s2)
              else
                let s3 = (case processor s2 of
                            None \<Rightarrow> s2
                          | Some p \<Rightarrow> s2\<lparr>effects := effects s2 @ [Processor_disconnected p]\<rparr>)
                in if audioContext s3 \<noteq> None \<and> Close_context \<in> set failing
                   then (Some (Step_failed Close_context), s3)
                   else
                     (None, case audioContext s3 of
                              None \<Rightarrow> s3
                            | Some c \<Rightarrow> s3\<lparr>effects := effects s3 @ [Context_closed c]\<rparr>))"

text \<open>The handlers that \<^verbatim>\<open>setupRecognizer\<close> gives the recognizer.\<close>

definition onfinalresult ::
  "recognition_result \<Rightarrow> teardown_step list \<Rightarrow> app_state \<Rightarrow> js_error option \<times> app_state" where
  "onfinalresult finalResult failing s =
     (if has_text finalResult
      then (case checkResult finalResult s of
              (Some e, s1) \<Rightarrow> (Some e, s1)
            | (None, s1) \<Rightarrow> stopRecognition failing s1)
      else stopRecognition failing s)"

definition onpartialresult :: "string \<Rightarrow> app_state \<Rightarrow> app_state" where
  "onpartialresult partial s = s\<lparr>transcriptArea := Text partial\<rparr>"

subsection \<open>Events\<close>

text \<open>
  What can happen after the script's top level: a click on one of the two buttons, or the
  recognizer calling one of its handlers. A disabled button delivers no click, a recognizer
  that was never built calls nothing, and an error a handler throws ends that handler only.
\<close>

datatype event =
    Click_start mic_outcome
  | Click_next
  | Final_result recognition_result "teardown_step list"
  | Partial_result string

definition handle :: "event \<Rightarrow> app_state \<Rightarrow> app_state" where
  "handle ev s =
     (case ev of
        Click_start mic \<Rightarrow> if startButton_disabled s then s else startRecognition mic s
      | Click_next \<Rightarrow> if nextButton_disabled s then s else snd (nextTarget s)
      | Final_result r failing \<Rightarrow>
          (case recognizer s of None \<Rightarrow> s | Some g \<Rightarrow> snd (onfinalresult r failing s))
      | Partial_result p \<Rightarrow>
          (case recognizer s of None \<Rightarrow> s | Some g \<Rightarrow> onpartialresult p s))"

text \<open>
  A session: the events before the target file has arrived, the \<^verbatim>\<open>load\<close> listener
  with the outcome of the fetch, the events after it.
\<close>

definition session :: "event list \<Rightarrow> fetch_outcome \<Rightarrow> event list \<Rightarrow> app_state \<Rightarrow> app_state" where
  "session pre f post s = fold handle post (snd (window_load f (fold handle pre s)))"

text \<open>A capture is in progress: the media stream held has tracks that were not stopped.\<close>

definition capturing :: "app_state \<Rightarrow> bool" where
  "capturing s =
     (case mediaStream s of
        None \<Rightarrow> False
      | Some m \<Rightarrow> Tracks_stopped m \<notin> set (effects s))"

text \<open>Pressing Next \<open>n\<close> times.\<close>

fun advance :: "nat \<Rightarrow> app_state \<Rightarrow> app_state" where
  "advance 0 s = s"
| "advance (Suc n) s = advance n (snd (nextTarget s))"

section \<open>The specification's vocabulary\<close>

text \<open>
  The definitions of this section follow the words of the specification, to be compared
  with the functions above.
\<close>

definition underscores_to_spaces :: "string \<Rightarrow> string" where
  "underscores_to_spaces s = map (\<lambda>c. if c = CHR ''_'' then CHR '' '' else c) s"

text \<open>The expected key, canonicalized: underscore to space, lower-case, trimmed.\<close>

definition canonical_key :: "string \<Rightarrow> string" where
  "canonical_key k = trim (toLowerCase (underscores_to_spaces k))"

text \<open>The recognized text, canonicalized: lower-case, trimmed.\<close>

definition canonical_text :: "string \<Rightarrow> string" where
  "canonical_text t = trim (toLowerCase t)"


text \<open>The verdicts, and the verdict that a feedback text shows, if it shows one.\<close>

datatype verdict = Verdict_correct | Verdict_incorrect | Verdict_no_speech

definition verdict_of :: "text_content \<Rightarrow> verdict option" where
  "verdict_of c =
     (case c of
        Correct conf \<Rightarrow> Some Verdict_correct
      | Try_again w conf \<Rightarrow> Some Verdict_incorrect
      | Failed_to_recognize \<Rightarrow> Some Verdict_no_speech
      | _ \<Rightarrow> None)"

text \<open>A key that, lower-cased and trimmed, neither begins nor ends with an underscore.\<close>

definition plain_key :: "string \<Rightarrow> bool" where
  "plain_key k =
     (let t = trim (toLowerCase k)
      in t = [] \<or> (hd t \<noteq> CHR ''_'' \<and> last t \<noteq> CHR ''_''))"

text \<open>The current index is a valid index whenever there are targets.\<close>

definition index_valid :: "app_state \<Rightarrow> bool" where
  "index_valid s =
     (targets s = [] \<or>
      (case currentTargetIndex s of NaN \<Rightarrow> False | Num i \<Rightarrow> i < length (targets s)))"

text \<open>A state in which the one target with the given key is the current one.\<close>

definition drill_on :: "string \<Rightarrow> app_state" where
  "drill_on k =
     (initial_state False False)
       \<lparr>targets := [\<lparr>key = k, display = [], path = [], category = []\<rparr>]\<rparr>"

text \<open>A final result whose only alternative has the given text and confidence.\<close>

definition heard :: "string \<Rightarrow> rat option \<Rightarrow> recognition_result" where
  "heard w c =
     \<lparr>result_text = Some w, alternatives = Some [\<lparr>alt_text = w, alt_conf = c\<rparr>]\<rparr>"

text \<open>A string with no white space at either end.\<close>

definition trimmed :: "string \<Rightarrow> bool" where
  "trimmed t = (t = [] \<or> (\<not> is_white_space (hd t) \<and> \<not> is_white_space (last t)))"

text \<open>A line that splits on commas into exactly four fields, and the item of its fields.\<close>

definition four_fields :: "string \<Rightarrow> bool" where
  "four_fields line = (length (split_on CHR '','' line) = 4)"

definition line_item :: "string \<Rightarrow> drill_item" where
  "line_item line =
     (let fields = split_on CHR '','' line
      in \<lparr>key = trim (fields ! 0), display = trim (fields ! 1),
          path = trim (fields ! 2), category = trim (fields ! 3)\<rparr>)"

text \<open>The items of the valid lines among the given lines, in their order.\<close>

definition valid_items :: "string list \<Rightarrow> drill_item list" where
  "valid_items ls = map line_item (filter four_fields ls)"

text \<open>What navigation reads and writes: the targets, the index, the Next button.\<close>

definition navigation :: "app_state \<Rightarrow> drill_item list \<times> js_number \<times> bool" where
  "navigation s = (targets s, currentTargetIndex s, nextButton_disabled s)"

text \<open>
  Before the target file has arrived nothing is loaded and Next is disabled; afterwards Next
  is enabled only with targets, and then the index is valid.
\<close>

definition before_load :: "app_state \<Rightarrow> bool" where
  "before_load s =
     (recognizer s = None \<and> targets s = [] \<and> currentTargetIndex s = Num 0
      \<and> nextButton_disabled s)"

definition navigable :: "app_state \<Rightarrow> bool" where
  "navigable s = (if targets s = [] then nextButton_disabled s else index_valid s)"

subsection \<open>Sample inputs\<close>


definition two_lines :: string where
  "two_lines = ''a,b,c,d'' @ [CHR 0x0A] @ ''e,f,g,h''"

text \<open>A page with three targets loaded, Next disabled in its markup.\<close>

definition three_targets :: app_state where
  "three_targets =
     snd (window_load
            (Response True (''a,b,c,d'' @ [CHR 0x0A] @ ''e,f,g,h'' @ [CHR 0x0A] @ ''i,j,k,l''))
            (initial_state False True))"

text \<open>A session with clicks before and after the two-line target file arrives.\<close>

definition browsing :: app_state where
  "browsing =
     session [Click_next] (Response True two_lines)
       [Click_next, Click_start Granted, Click_next, Click_next] (initial_state False True)"

text \<open>
  A session that has one target, has built its recognizer on the first click on Start and
  is capturing since the second.
\<close>

definition listening :: app_state where
  "listening =
     session [] (Response True ''a,b,c,d'')
       [Click_start Granted, Click_start Granted] (initial_state False True)"

section \<open>Facts about the string functions\<close>

lemma split_on_not_Nil: "split_on sep s \<noteq> []"
  by (induction s) (auto split: list.splits)

lemma join_split_replace:
  "join_with [b] (split_on a s) = map (\<lambda>c. if c = a then b else c) s"
proof (induction s)
  case Nil
  then show ?case by simp
next
  case (Cons c cs)
  obtain p ps where ps: "split_on a cs = p # ps"
    using split_on_not_Nil [of a cs] by (cases "split_on a cs") auto
  show ?case
  proof (cases "c = a")
    case True
    with Cons ps show ?thesis by simp
  next
    case False
    with Cons ps show ?thesis by (cases ps) auto
  qed
qed

lemma length_split_on: "length (split_on sep s) = Suc (count_list s sep)"
  by (induction s) (auto split: list.splits simp: split_on_not_Nil)

lemma split_on_no_sep: "p \<in> set (split_on sep s) \<Longrightarrow> sep \<notin> set p"
  by (induction s arbitrary: p) (auto split: list.splits if_splits)

lemma split_join_underscores:
  "join_with '' '' (split_on CHR ''_'' s) = underscores_to_spaces s"
  by (simp add: underscores_to_spaces_def join_split_replace)

lemma four_fields_commas: "four_fields line \<longleftrightarrow> count_list line CHR '','' = 3"
  by (simp add: four_fields_def length_split_on)

subsection \<open>Lower-casing\<close>

lemma of_char_lower_unit:
  "(of_char (lower_unit c) :: nat) =
     (if (65 \<le> (of_char c :: nat) \<and> (of_char c :: nat) \<le> 90)
         \<or> (192 \<le> (of_char c :: nat) \<and> (of_char c :: nat) \<le> 222 \<and> (of_char c :: nat) \<noteq> 215)
      then of_char c + 32 else of_char c)"
  by (auto simp: lower_unit_def Let_def take_bit_nat_eq_self)

lemma lower_unit_idem: "lower_unit (lower_unit c) = lower_unit c"
  by (auto simp: lower_unit_def Let_def)

lemma lower_unit_ws: "is_white_space (lower_unit c) = is_white_space c"
  by (auto simp: lower_unit_def is_white_space_def Let_def)

lemma lower_unit_underscore: "lower_unit c = CHR ''_'' \<longleftrightarrow> c = CHR ''_''"
proof -
  have "lower_unit c = CHR ''_'' \<longleftrightarrow> (of_char (lower_unit c) :: nat) = of_char CHR ''_''"
    by (simp only: of_char_eq_iff)
  also have "\<dots> \<longleftrightarrow> (of_char c :: nat) = of_char CHR ''_''"
    by (simp add: of_char_lower_unit)
  also have "\<dots> \<longleftrightarrow> c = CHR ''_''"
    by (simp only: of_char_eq_iff)
  finally show ?thesis .
qed

lemma lower_unit_space: "lower_unit CHR '' '' = CHR '' ''"
  by (simp add: lower_unit_def)

lemma toLowerCase_idem: "toLowerCase (toLowerCase s) = toLowerCase s"
  by (simp add: toLowerCase_def lower_unit_idem)

lemma dropWhile_ws_lower:
  "dropWhile is_white_space (toLowerCase s) = toLowerCase (dropWhile is_white_space s)"
  by (induction s) (simp_all add: toLowerCase_def lower_unit_ws)

lemma toLowerCase_rev: "toLowerCase (rev s) = rev (toLowerCase s)"
  by (simp add: toLowerCase_def rev_map)

lemma trim_toLowerCase: "trim (toLowerCase s) = toLowerCase (trim s)"
  by (simp add: trim_def dropWhile_ws_lower toLowerCase_rev [symmetric])

lemma lower_underscores_commute:
  "toLowerCase (underscores_to_spaces s) = underscores_to_spaces (toLowerCase s)"
  by (induction s)
     (simp_all add: toLowerCase_def underscores_to_spaces_def lower_unit_underscore lower_unit_space)

lemma underscores_to_spaces_idem:
  "underscores_to_spaces (underscores_to_spaces s) = underscores_to_spaces s"
  by (induction s) (simp_all add: underscores_to_spaces_def)

subsection \<open>Trimming\<close>

lemma space_is_white: "is_white_space CHR '' ''"
  by (simp add: is_white_space_def)

lemma trim_unique:
  assumes a: "\<forall>c\<in>set a. is_white_space c" and b: "\<forall>c\<in>set b. is_white_space c"
    and t: "trimmed t"
  shows "trim (a @ t @ b) = t"
proof (cases "t = []")
  case True
  from a b have "dropWhile is_white_space (a @ b) = []"
    by (simp only: dropWhile_eq_Nil_conv set_append) blast
  then have "trim (a @ b) = []"
    unfolding trim_def by (simp only: dropWhile.simps rev.simps)
  with True show ?thesis by simp
next
  case False
  with t have h: "\<not> is_white_space (hd t)" and l: "\<not> is_white_space (last t)"
    by (simp_all add: trimmed_def)
  from a have "dropWhile is_white_space (a @ t @ b) = dropWhile is_white_space (t @ b)"
    by (intro dropWhile_append2) simp
  also from False h have "\<dots> = t @ b"
    by (cases t) simp_all
  finally have d1: "dropWhile is_white_space (a @ t @ b) = t @ b" .
  from b have "dropWhile is_white_space (rev b @ rev t) = dropWhile is_white_space (rev t)"
    by (intro dropWhile_append2) simp
  also from False l have "\<dots> = rev t"
    by (cases t rule: rev_cases) simp_all
  finally have "dropWhile is_white_space (rev b @ rev t) = rev t" .
  with d1 show ?thesis by (simp add: trim_def)
qed

lemma dropWhile_decomp:
  "\<exists>a. s = a @ dropWhile P s \<and> (\<forall>c\<in>set a. P c)"
  by (rule exI [of _ "takeWhile P s"]) (auto dest: set_takeWhileD)

lemma dropWhile_hd: "dropWhile P s \<noteq> [] \<Longrightarrow> \<not> P (hd (dropWhile P s))"
  by (simp add: hd_dropWhile)

lemma trim_decomp:
  "\<exists>a b. s = a @ trim s @ b \<and> (\<forall>c\<in>set a. is_white_space c) \<and> (\<forall>c\<in>set b. is_white_space c)"
proof -
  define d where "d = dropWhile is_white_space s"
  define e where "e = dropWhile is_white_space (rev d)"
  obtain a where a: "s = a @ d" "\<forall>c\<in>set a. is_white_space c"
    unfolding d_def using dropWhile_decomp [of s is_white_space] by blast
  obtain b where b: "rev d = b @ e" "\<forall>c\<in>set b. is_white_space c"
    unfolding e_def using dropWhile_decomp [of "rev d" is_white_space] by blast
  have t: "rev e = trim s" by (simp add: trim_def d_def e_def)
  from b(1) have "rev (rev d) = rev (b @ e)" by (rule arg_cong)
  then have "d = rev e @ rev b" by simp
  then have d: "d = trim s @ rev b" by (simp only: t)
  note a(1)
  also note d
  finally have "s = a @ trim s @ rev b" .
  moreover from b(2) have "\<forall>c\<in>set (rev b). is_white_space c" by simp
  ultimately show ?thesis using a(2) by blast
qed

lemma trimmed_trim: "trimmed (trim s)"
proof (cases "trim s = []")
  case True
  then show ?thesis by (simp add: trimmed_def)
next
  case False
  define d where "d = dropWhile is_white_space s"
  define e where "e = dropWhile is_white_space (rev d)"
  have t: "trim s = rev e" by (simp add: trim_def d_def e_def)
  with False have e: "e \<noteq> []" by simp
  then have l: "\<not> is_white_space (hd e)"
    unfolding e_def by (rule dropWhile_hd)
  have d: "d \<noteq> []"
  proof
    assume "d = []"
    then have "e = []" by (simp add: e_def)
    with e show False ..
  qed
  then have h: "\<not> is_white_space (hd d)"
    unfolding d_def by (rule dropWhile_hd)
  obtain b where b: "rev d = b @ e"
    unfolding e_def using dropWhile_decomp [of "rev d" is_white_space] by blast
  have "last e = last (b @ e)" using e by simp
  also have "\<dots> = last (rev d)" using b by simp
  also have "\<dots> = hd d" using d by (simp add: last_rev)
  finally have "hd (trim s) = hd d" using e t by (simp add: hd_rev)
  moreover have "last (trim s) = hd e" using e t by (simp add: last_rev)
  ultimately show ?thesis using l h by (simp add: trimmed_def)
qed

lemma trim_fixed: "trim t = t \<longleftrightarrow> trimmed t"
proof
  assume "trim t = t"
  then show "trimmed t" using trimmed_trim [of t] by simp
next
  assume "trimmed t"
  then show "trim t = t" using trim_unique [of "[]" "[]" t] by simp
qed

lemma trim_idem: "trim (trim s) = trim s"
  by (simp add: trim_fixed trimmed_trim)

text \<open>Trimming first changes nothing when a unit-wise map that keeps white space follows.\<close>

lemma trim_map:
  assumes f: "\<And>c. is_white_space c \<Longrightarrow> is_white_space (f c)"
  shows "trim (map f s) = trim (map f (trim s))"
proof -
  obtain a b where s: "s = a @ trim s @ b"
    and a: "\<forall>c\<in>set a. is_white_space c" and b: "\<forall>c\<in>set b. is_white_space c"
    using trim_decomp [of s] by blast
  define y where "y = map f (trim s)"
  obtain a' b' where y: "y = a' @ trim y @ b'"
    and a': "\<forall>c\<in>set a'. is_white_space c" and b': "\<forall>c\<in>set b'. is_white_space c"
    using trim_decomp [of y] by blast
  have "map f s = map f (a @ trim s @ b)"
    using s by (rule arg_cong)
  also have "\<dots> = map f a @ y @ map f b"
    by (simp add: y_def)
  also have "\<dots> = map f a @ (a' @ trim y @ b') @ map f b"
    using y by (rule arg_cong)
  also have "\<dots> = (map f a @ a') @ trim y @ (b' @ map f b)"
    by simp
  finally have "trim (map f s) = trim ((map f a @ a') @ trim y @ (b' @ map f b))"
    by (rule arg_cong)
  also have "\<dots> = trim y"
    using a a' b b' f by (intro trim_unique) (auto simp: trimmed_trim)
  finally show ?thesis by (simp add: y_def)
qed

subsection \<open>The two forms of a key\<close>

lemma targetKey_replace: "targetKey k = underscores_to_spaces (trim (toLowerCase k))"
  by (simp add: targetKey_def split_join_underscores)


lemma trimmed_targetKey: "trimmed (targetKey k) \<longleftrightarrow> plain_key k"
proof -
  define t where "t = trim (toLowerCase k)"
  have tt: "trimmed t" by (simp add: t_def trimmed_trim)
  show ?thesis
  proof (cases "t = []")
    case True
    then show ?thesis
      by (simp add: targetKey_replace plain_key_def t_def [symmetric] trimmed_def
            underscores_to_spaces_def)
  next
    case False
    with tt have h: "\<not> is_white_space (hd t)" and l: "\<not> is_white_space (last t)"
      by (simp_all add: trimmed_def)
    from False have "hd (underscores_to_spaces t) = (if hd t = CHR ''_'' then CHR '' '' else hd t)"
      and "last (underscores_to_spaces t) = (if last t = CHR ''_'' then CHR '' '' else last t)"
      by (simp_all add: underscores_to_spaces_def hd_map last_map)
    with False h l show ?thesis
      by (simp add: targetKey_replace plain_key_def t_def [symmetric] trimmed_def
            underscores_to_spaces_def space_is_white)
  qed
qed


lemma canonical_text_trimmed: "trimmed (canonical_text t)"
  by (simp add: canonical_text_def trimmed_trim)

text \<open>A key that is not plain equals no recognized word: the word is trimmed, the key is not.\<close>

lemma edge_underscore_never_equal: "\<not> plain_key k \<Longrightarrow> canonical_text t \<noteq> targetKey k"
  using canonical_text_trimmed [of t] trimmed_targetKey [of k] by auto

lemma canonical_text_idem: "canonical_text (canonical_text t) = canonical_text t"
  by (simp add: canonical_text_def trim_toLowerCase toLowerCase_idem trim_idem)

text \<open>Canonicalization in the order of the specification, with the trim last, is idempotent.\<close>

lemma canonical_key_idem: "canonical_key (canonical_key k) = canonical_key k"
proof -
  define x where "x = underscores_to_spaces k"
  have "canonical_key (canonical_key k)
      = trim (toLowerCase (underscores_to_spaces (toLowerCase (trim x))))"
    by (simp add: canonical_key_def x_def trim_toLowerCase)
  also have "\<dots> = trim (underscores_to_spaces (toLowerCase (trim x)))"
    by (simp add: lower_underscores_commute toLowerCase_idem)
  also have "\<dots> = trim (toLowerCase (underscores_to_spaces (trim x)))"
    by (simp add: lower_underscores_commute)
  also have "\<dots> = toLowerCase (trim (underscores_to_spaces (trim x)))"
    by (simp add: trim_toLowerCase)
  also have "trim (underscores_to_spaces (trim x)) = trim (underscores_to_spaces x)"
    unfolding underscores_to_spaces_def
    by (rule trim_map [symmetric]) (simp add: space_is_white)
  also have "underscores_to_spaces x = x"
    by (simp add: x_def underscores_to_spaces_idem)
  finally show ?thesis
    by (simp add: canonical_key_def x_def trim_toLowerCase)
qed

lemma plain_targetKey_fixed:
  assumes "plain_key k"
  shows "targetKey (targetKey k) = targetKey k"
proof -
  define y where "y = targetKey k"
  have y: "y = underscores_to_spaces (trim (toLowerCase k))"
    by (simp add: y_def targetKey_replace)
  have "toLowerCase y = y"
    by (simp add: y lower_underscores_commute trim_toLowerCase [symmetric] toLowerCase_idem)
  moreover have "trim y = y"
    using assms by (simp add: y_def trim_fixed trimmed_targetKey)
  moreover have "underscores_to_spaces y = y"
    by (simp add: y underscores_to_spaces_idem)
  ultimately have "targetKey y = y"
    by (simp add: targetKey_replace)
  then show ?thesis by (simp add: y_def)
qed

section \<open>The check of a recognition result\<close>

lemma current_target_drill_on:
  "current_target (drill_on k) = Some \<lparr>key = k, display = [], path = [], category = []\<rparr>"
  by (simp add: drill_on_def current_target_def initial_state_def)




lemma has_text_Some: "has_text r \<Longrightarrow> \<exists>w. result_text r = Some w"
  by (cases "result_text r") (simp_all add: has_text_def)


lemma checkResult_alt:
  assumes "result_text r = Some w" "current_target s = Some t" "bestAlternative r = Some a"
  shows "checkResult r s =
     (None, (if canonical_text (alt_text a) = targetKey (key t)
                \<and> CONFIDENCE_THRESHOLD \<le> confidence a
             then s\<lparr>feedbackArea := Correct (confidence a), feedbackArea_color := Some ''green''\<rparr>
             else s\<lparr>feedbackArea := Try_again (canonical_text (alt_text a)) (confidence a),
                     feedbackArea_color := Some ''red''\<rparr>)
            \<lparr>transcriptArea := Text ''Recognition Complete.''\<rparr>)"
  using assms by (simp add: checkResult_def canonical_text_def Let_def)

lemma checkResult_no_alternative:
  assumes "result_text r = Some w" "current_target s = Some t" "bestAlternative r = None"
  shows "checkResult r s =
     (None, s\<lparr>feedbackArea := Failed_to_recognize, feedbackArea_color := Some ''red''\<rparr>)"
  using assms by (simp add: checkResult_def)

lemma stopRecognition_feedback:
  "feedbackArea (snd (stopRecognition failing s)) = feedbackArea s"
  by (simp add: stopRecognition_def Let_def split: option.splits)

text \<open>The handler shows what the check shows, when it makes the check and the check ends.\<close>

lemma onfinalresult_checked:
  assumes "has_text r" and "fst (checkResult r s) = None"
  shows "feedbackArea (snd (onfinalresult r failing s)) = feedbackArea (snd (checkResult r s))"
  using assms
  by (cases "checkResult r s") (simp add: onfinalresult_def stopRecognition_feedback)

lemma onfinalresult_unchecked:
  assumes "\<not> has_text r"
  shows "feedbackArea (snd (onfinalresult r failing s)) = feedbackArea s"
  using assms by (simp add: onfinalresult_def stopRecognition_feedback)




text \<open>With a key that has an underscore at its edge no alternative is ever Correct.\<close>

lemma checkResult_edge_key_incorrect:
  assumes "result_text r = Some w" and "current_target s = Some t" and "\<not> plain_key (key t)"
    and "bestAlternative r = Some a"
  shows "verdict_of (feedbackArea (snd (checkResult r s))) = Some Verdict_incorrect"
  using edge_underscore_never_equal [OF assms(3), of "alt_text a"]
  by (simp add: checkResult_alt [OF assms(1,2,4)] verdict_of_def)

section \<open>The parser of the target list\<close>

lemma parse_line_cases:
  "parse_line line = (if four_fields line then Some (line_item line) else None)"
  by (simp add: parse_line_def four_fields_def line_item_def Let_def)

lemma keep_valid_lines:
  "map the (filter (\<lambda>item. item \<noteq> None) (map parse_line ls)) = valid_items ls"
  by (induction ls) (simp_all add: parse_line_cases valid_items_def)

lemma line_item_fields:
  "split_on CHR '','' line = [a, b, c, d] \<Longrightarrow>
     line_item line = \<lparr>key = trim a, display = trim b, path = trim c, category = trim d\<rparr>"
  by (simp add: line_item_def)

subsection \<open>Trimming the whole text first changes no item\<close>

lemma split_on_append:
  "split_on sep (x @ y) =
     butlast (split_on sep x) @ [last (split_on sep x) @ hd (split_on sep y)] @ tl (split_on sep y)"
proof (induction x)
  case Nil
  then show ?case using split_on_not_Nil [of sep y] by simp
next
  case (Cons c x)
  obtain p ps where ps: "split_on sep x = p # ps"
    using split_on_not_Nil [of sep x] by (cases "split_on sep x") auto
  show ?case
  proof (cases "c = sep")
    case True
    with Cons ps show ?thesis by simp
  next
    case False
    with Cons ps show ?thesis by (cases ps) simp_all
  qed
qed

lemma split_on_subset: "p \<in> set (split_on sep s) \<Longrightarrow> set p \<subseteq> set s"
proof (induction s arbitrary: p)
  case Nil
  then show ?case by simp
next
  case (Cons c s)
  obtain q qs where q: "split_on sep s = q # qs"
    using split_on_not_Nil [of sep s] by (cases "split_on sep s") auto
  with Cons.IH have "set q \<subseteq> set s" and "\<forall>r\<in>set qs. set r \<subseteq> set s"
    by simp_all
  with Cons.prems q show ?case
    by (cases "c = sep") auto
qed

lemma comma_not_white: "\<not> is_white_space CHR '',''"
  by (simp add: is_white_space_def)

lemma white_no_comma:
  assumes "\<forall>c\<in>set a. is_white_space c"
  shows "count_list a CHR '','' = 0"
  using assms comma_not_white by (auto simp: count_list_0_iff)

lemma white_split_comma:
  assumes "\<forall>c\<in>set a. is_white_space c"
  shows "split_on CHR '','' a = [a]"
  using assms
proof (induction a)
  case Nil
  then show ?case by simp
next
  case (Cons c a)
  then have "c \<noteq> CHR '',''" using comma_not_white by auto
  with Cons show ?case by simp
qed

lemma white_not_four_fields:
  assumes "\<forall>c\<in>set a. is_white_space c"
  shows "\<not> four_fields a"
  using assms by (simp add: four_fields_def white_split_comma)

lemma trim_white_prefix:
  assumes "\<forall>c\<in>set a. is_white_space c"
  shows "trim (a @ s) = trim s"
proof -
  obtain a' b' where s: "s = a' @ trim s @ b'"
    and a': "\<forall>c\<in>set a'. is_white_space c" and b': "\<forall>c\<in>set b'. is_white_space c"
    using trim_decomp [of s] by blast
  have "trim (a @ s) = trim (a @ (a' @ trim s @ b'))"
    using s by (rule arg_cong [of s "a' @ trim s @ b'" "\<lambda>x. trim (a @ x)"])
  also have "\<dots> = trim ((a @ a') @ trim s @ b')" by simp
  also have "\<dots> = trim s"
    using assms a' b' by (intro trim_unique) (auto simp: trimmed_trim)
  finally show ?thesis .
qed

lemma trim_white_suffix:
  assumes "\<forall>c\<in>set b. is_white_space c"
  shows "trim (s @ b) = trim s"
proof -
  obtain a' b' where s: "s = a' @ trim s @ b'"
    and a': "\<forall>c\<in>set a'. is_white_space c" and b': "\<forall>c\<in>set b'. is_white_space c"
    using trim_decomp [of s] by blast
  have "trim (s @ b) = trim ((a' @ trim s @ b') @ b)"
    using s by (rule arg_cong [of s "a' @ trim s @ b'" "\<lambda>x. trim (x @ b)"])
  also have "\<dots> = trim (a' @ trim s @ (b' @ b))" by simp
  also have "\<dots> = trim s"
    using assms a' b' by (intro trim_unique) (auto simp: trimmed_trim)
  finally show ?thesis .
qed

lemma four_fields_white_prefix:
  assumes "\<forall>c\<in>set a. is_white_space c"
  shows "four_fields (a @ l) = four_fields l"
  using white_no_comma [OF assms] by (simp add: four_fields_commas)

lemma four_fields_white_suffix:
  assumes "\<forall>c\<in>set b. is_white_space c"
  shows "four_fields (l @ b) = four_fields l"
  using white_no_comma [OF assms] by (simp add: four_fields_commas)

lemma line_item_white_prefix:
  assumes "\<forall>c\<in>set a. is_white_space c"
  shows "line_item (a @ l) = line_item l"
proof -
  obtain f fs where f: "split_on CHR '','' l = f # fs"
    using split_on_not_Nil [of "CHR '',''" l] by (cases "split_on CHR '','' l") auto
  then have "split_on CHR '','' (a @ l) = (a @ f) # fs"
    by (simp add: split_on_append white_split_comma [OF assms])
  with f show ?thesis
    by (simp add: line_item_def trim_white_prefix [OF assms])
qed

lemma line_item_white_suffix:
  assumes "\<forall>c\<in>set b. is_white_space c" and "four_fields l"
  shows "line_item (l @ b) = line_item l"
proof -
  from assms(2) obtain f0 f1 f2 f3 where f: "split_on CHR '','' l = [f0, f1, f2, f3]"
    by (auto simp: four_fields_def length_Suc_conv numeral_eq_Suc)
  then have "split_on CHR '','' (l @ b) = [f0, f1, f2, f3 @ b]"
    by (simp add: split_on_append white_split_comma [OF assms(1)])
  with f show ?thesis
    by (simp add: line_item_def trim_white_suffix [OF assms(1)])
qed

lemma white_lines_no_items:
  assumes "\<forall>l\<in>set ls. \<forall>c\<in>set l. is_white_space c"
  shows "valid_items ls = []"
  using assms by (auto simp: valid_items_def filter_empty_conv white_not_four_fields)

lemma white_pieces:
  assumes "\<forall>c\<in>set a. is_white_space c"
  shows "\<forall>l\<in>set (split_on sep a). \<forall>c\<in>set l. is_white_space c"
  using assms split_on_subset [of _ sep a] by blast

lemma valid_items_white_prefix:
  assumes "\<forall>c\<in>set a. is_white_space c"
  shows "valid_items (split_on CHR 0x0A (a @ t)) = valid_items (split_on CHR 0x0A t)"
proof -
  define A where "A = split_on CHR 0x0A a"
  obtain l ls where T: "split_on CHR 0x0A t = l # ls"
    using split_on_not_Nil [of "CHR 0x0A" t] by (cases "split_on CHR 0x0A t") auto
  have An: "A \<noteq> []" by (simp add: A_def split_on_not_Nil)
  have w: "\<forall>l\<in>set A. \<forall>c\<in>set l. is_white_space c"
    unfolding A_def using assms by (rule white_pieces)
  then have wl: "\<forall>c\<in>set (last A). is_white_space c"
    using last_in_set [OF An] by blast
  from w have "\<forall>l\<in>set (butlast A). \<forall>c\<in>set l. is_white_space c"
    by (auto dest: in_set_butlastD)
  then have b: "valid_items (butlast A) = []" by (rule white_lines_no_items)
  have "split_on CHR 0x0A (a @ t) = butlast A @ (last A @ l) # ls"
    by (simp add: split_on_append T A_def)
  then have "valid_items (split_on CHR 0x0A (a @ t))
      = valid_items (butlast A) @ valid_items ((last A @ l) # ls)"
    by (simp add: valid_items_def)
  also have "\<dots> = valid_items (l # ls)"
    by (simp add: b) (simp add: valid_items_def four_fields_white_prefix [OF wl]
          line_item_white_prefix [OF wl])
  finally show ?thesis by (simp add: T)
qed

lemma valid_items_white_suffix:
  assumes "\<forall>c\<in>set b. is_white_space c"
  shows "valid_items (split_on CHR 0x0A (t @ b)) = valid_items (split_on CHR 0x0A t)"
proof -
  define B where "B = split_on CHR 0x0A b"
  define T where "T = split_on CHR 0x0A t"
  have Bn: "B \<noteq> []" and Tn: "T \<noteq> []" by (simp_all add: B_def T_def split_on_not_Nil)
  have w: "\<forall>l\<in>set B. \<forall>c\<in>set l. is_white_space c"
    unfolding B_def using assms by (rule white_pieces)
  then have wh: "\<forall>c\<in>set (hd B). is_white_space c"
    using hd_in_set [OF Bn] by blast
  from w have "\<forall>l\<in>set (tl B). \<forall>c\<in>set l. is_white_space c"
    using list.set_sel(2) [OF Bn] by blast
  then have e: "valid_items (tl B) = []" by (rule white_lines_no_items)
  have "split_on CHR 0x0A (t @ b) = butlast T @ [last T @ hd B] @ tl B"
    by (simp add: split_on_append T_def B_def)
  then have "valid_items (split_on CHR 0x0A (t @ b))
      = valid_items (butlast T) @ valid_items [last T @ hd B] @ valid_items (tl B)"
    by (simp add: valid_items_def)
  also have "valid_items [last T @ hd B] = valid_items [last T]"
    by (simp add: valid_items_def four_fields_white_suffix [OF wh] line_item_white_suffix [OF wh])
  also have "valid_items (butlast T) @ valid_items [last T] @ valid_items (tl B)
      = valid_items (butlast T @ [last T])"
    by (simp add: e) (simp add: valid_items_def)
  also have "butlast T @ [last T] = T"
    using Tn by simp
  finally show ?thesis by (simp add: T_def)
qed

lemma valid_items_text_lines:
  "valid_items (text_lines txt) = valid_items (split_on CHR 0x0A txt)"
proof -
  obtain a b where s: "txt = a @ trim txt @ b"
    and a: "\<forall>c\<in>set a. is_white_space c" and b: "\<forall>c\<in>set b. is_white_space c"
    using trim_decomp [of "txt"] by blast
  have "valid_items (split_on CHR 0x0A txt)
      = valid_items (split_on CHR 0x0A (a @ trim txt @ b))"
    using s by (rule arg_cong)
  also have "\<dots> = valid_items (split_on CHR 0x0A (trim txt @ b))"
    using a by (rule valid_items_white_prefix)
  also have "\<dots> = valid_items (split_on CHR 0x0A (trim txt))"
    using b by (rule valid_items_white_suffix)
  finally show ?thesis by (simp add: text_lines_def)
qed

text \<open>
  C2. The parsed targets are the items of the lines of the text that split on commas into
  exactly four fields, in the order of the lines, and no other line contributes; the item
  of a line holds its four fields, trimmed, as key, display, path and category. Loading a
  fetched text stores exactly these items as the targets; with at least one it shows their
  number and enables Next, and it changes nothing else. When no line is valid the targets
  are empty, the prompt shows the format error and the load listener ends without throwing.
  When the fetch fails or its response is not ok, loading only shows the error.
\<close>

theorem parse_targets_valid_lines:
  "parse_targets txt = map line_item (filter four_fields (split_on CHR 0x0A txt))
   \<and> (\<forall>line a b c d. split_on CHR '','' line = [a, b, c, d] \<longrightarrow>
          four_fields line
          \<and> line_item line = \<lparr>key = trim a, display = trim b, path = trim c, category = trim d\<rparr>)
   \<and> targets (loadTargets (Response True txt) s)
       = map line_item (filter four_fields (split_on CHR 0x0A txt))
   \<and> loadTargets (Response True txt) s
       = (if filter four_fields (split_on CHR 0x0A txt) = []
          then s\<lparr>targets := [],
                 promptText := Text ''Error: Targets file is empty or formatted incorrectly.''\<rparr>
          else s\<lparr>targets := map line_item (filter four_fields (split_on CHR 0x0A txt)),
                 promptText :=
                   Loaded_targets (length (filter four_fields (split_on CHR 0x0A txt))),
                 nextButton_disabled := False\<rparr>)
   \<and> (filter four_fields (split_on CHR 0x0A txt) = [] \<longrightarrow>
          targets (loadTargets (Response True txt) s) = []
          \<and> promptText (loadTargets (Response True txt) s)
              = Text ''Error: Targets file is empty or formatted incorrectly.''
          \<and> window_load (Response True txt) s = (None, loadTargets (Response True txt) s))
   \<and> loadTargets (Rejected msg) s = s\<lparr>promptText := Target_error msg\<rparr>
   \<and> loadTargets (Response False txt) s
       = s\<lparr>promptText :=
             Target_error ''Could not find target.txt. Did you name it correctly?''\<rparr>"
proof (intro conjI allI impI)
  show "loadTargets (Rejected msg) s = s\<lparr>promptText := Target_error msg\<rparr>"
    by (simp add: loadTargets_def)
  show "loadTargets (Response False txt) s
       = s\<lparr>promptText :=
             Target_error ''Could not find target.txt. Did you name it correctly?''\<rparr>"
    by (simp add: loadTargets_def)
  have "parse_targets txt = valid_items (text_lines txt)"
    by (simp only: parse_targets_def keep_valid_lines)
  then show p: "parse_targets txt = map line_item (filter four_fields (split_on CHR 0x0A txt))"
    by (simp only: valid_items_text_lines) (simp only: valid_items_def)
  have l: "loadTargets (Response True txt) s
       = (if parse_targets txt = []
          then s\<lparr>targets := [],
                 promptText := Text ''Error: Targets file is empty or formatted incorrectly.''\<rparr>
          else s\<lparr>targets := parse_targets txt,
                 promptText := Loaded_targets (length (parse_targets txt)),
                 nextButton_disabled := False\<rparr>)"
    by (simp add: loadTargets_def Let_def)
  then show "loadTargets (Response True txt) s
       = (if filter four_fields (split_on CHR 0x0A txt) = []
          then s\<lparr>targets := [],
                 promptText := Text ''Error: Targets file is empty or formatted incorrectly.''\<rparr>
          else s\<lparr>targets := map line_item (filter four_fields (split_on CHR 0x0A txt)),
                 promptText :=
                   Loaded_targets (length (filter four_fields (split_on CHR 0x0A txt))),
                 nextButton_disabled := False\<rparr>)"
    by (simp only: p) simp
  from l have "targets (loadTargets (Response True txt) s) = parse_targets txt"
    by simp
  then show "targets (loadTargets (Response True txt) s)
       = map line_item (filter four_fields (split_on CHR 0x0A txt))"
    by (simp only: p)
  {
    assume "filter four_fields (split_on CHR 0x0A txt) = []"
    with p have e: "parse_targets txt = []" by simp
    then show "targets (loadTargets (Response True txt) s) = []"
      by (simp add: loadTargets_def)
    from e show "promptText (loadTargets (Response True txt) s)
              = Text ''Error: Targets file is empty or formatted incorrectly.''"
      by (simp add: loadTargets_def)
    from e show "window_load (Response True txt) s = (None, loadTargets (Response True txt) s)"
      by (simp add: window_load_def updateTarget_def loadTargets_def)
  }
next
  fix line a b c d
  assume "split_on CHR '','' line = [a, b, c, d]"
  then show "four_fields line" by (simp add: four_fields_def)
next
  fix line a b c d
  assume "split_on CHR '','' line = [a, b, c, d]"
  then show "line_item line = \<lparr>key = trim a, display = trim b, path = trim c, category = trim d\<rparr>"
    by (rule line_item_fields)
qed

text \<open>
  A file of a valid line, with blanks around its fields and a carriage return at its end,
  and a line of two fields; and a file of the malformed line alone.
\<close>

theorem parse_targets_valid_lines_witness:
  "parse_targets ('' a , b,c ,D'' @ [CHR 0x0D, CHR 0x0A] @ ''bad,line'')
     = [\<lparr>key = ''a'', display = ''b'', path = ''c'', category = ''D''\<rparr>]
   \<and> loadTargets (Response True ('' a , b,c ,D'' @ [CHR 0x0D, CHR 0x0A] @ ''bad,line''))
        (initial_state False True)
       = (initial_state False True)
           \<lparr>targets := [\<lparr>key = ''a'', display = ''b'', path = ''c'', category = ''D''\<rparr>],
             promptText := Loaded_targets 1, nextButton_disabled := False\<rparr>
   \<and> loadTargets (Response True ''bad,line'') (initial_state False True)
       = (initial_state False True)
           \<lparr>targets := [],
             promptText := Text ''Error: Targets file is empty or formatted incorrectly.''\<rparr>
   \<and> window_load (Response True ''bad,line'') (initial_state False True)
       = (None, (initial_state False True)
           \<lparr>targets := [],
             promptText := Text ''Error: Targets file is empty or formatted incorrectly.''\<rparr>)"
proof -
  have l1: "split_on CHR 0x0A ('' a , b,c ,D'' @ [CHR 0x0D, CHR 0x0A] @ ''bad,line'')
      = ['' a , b,c ,D'' @ [CHR 0x0D], ''bad,line'']"
    by code_simp
  have l2: "split_on CHR 0x0A ''bad,line'' = [''bad,line'']"
    by code_simp
  have s1: "split_on CHR '','' ('' a , b,c ,D'' @ [CHR 0x0D])
      = ['' a '', '' b'', ''c '', ''D'' @ [CHR 0x0D]]"
    by code_simp
  have s2: "\<not> four_fields ''bad,line''"
    by code_simp
  have t: "trim '' a '' = ''a''" "trim '' b'' = ''b''" "trim ''c '' = ''c''"
    "trim (''D'' @ [CHR 0x0D]) = ''D''"
    by code_simp+
  from parse_targets_valid_lines
    [of "'' a , b,c ,D'' @ [CHR 0x0D, CHR 0x0A] @ ''bad,line''" "initial_state False True"]
  have "parse_targets ('' a , b,c ,D'' @ [CHR 0x0D, CHR 0x0A] @ ''bad,line'')
     = [\<lparr>key = ''a'', display = ''b'', path = ''c'', category = ''D''\<rparr>]
   \<and> loadTargets (Response True ('' a , b,c ,D'' @ [CHR 0x0D, CHR 0x0A] @ ''bad,line''))
        (initial_state False True)
       = (initial_state False True)
           \<lparr>targets := [\<lparr>key = ''a'', display = ''b'', path = ''c'', category = ''D''\<rparr>],
             promptText := Loaded_targets 1, nextButton_disabled := False\<rparr>"
    using s1 s2 t by (simp only: l1) simp
  moreover from parse_targets_valid_lines [of "''bad,line''" "initial_state False True"]
  have "loadTargets (Response True ''bad,line'') (initial_state False True)
       = (initial_state False True)
           \<lparr>targets := [],
             promptText := Text ''Error: Targets file is empty or formatted incorrectly.''\<rparr>
   \<and> window_load (Response True ''bad,line'') (initial_state False True)
       = (None, (initial_state False True)
           \<lparr>targets := [],
             promptText := Text ''Error: Targets file is empty or formatted incorrectly.''\<rparr>)"
    using s2 by (simp only: l2) simp
  ultimately show ?thesis by simp
qed

section \<open>Canonicalization of the key\<close>

text \<open>
  C3, amended. Canonicalization as \<^verbatim>\<open>checkResult\<close> applies it to the expected key
  (lower-casing, trimming, then underscores to spaces) returns its own result unchanged for
  every key that, lower-cased and trimmed, neither begins nor ends with an underscore; the
  canonicalization of the recognized text (lower-casing, trimming) does so for every string.
\<close>

theorem targetKey_idempotent:
  "(plain_key k \<longrightarrow> targetKey (targetKey k) = targetKey k)
   \<and> canonical_text (canonical_text t) = canonical_text t"
  by (simp add: plain_targetKey_fixed canonical_text_idem)

theorem targetKey_idempotent_witness:
  "plain_key '' Touch_Your_Nose'' \<and> targetKey '' Touch_Your_Nose'' = ''touch your nose''
   \<and> targetKey ''touch your nose'' = ''touch your nose''"
proof -
  have p: "plain_key '' Touch_Your_Nose''"
    and k: "targetKey '' Touch_Your_Nose'' = ''touch your nose''"
    by code_simp+
  with targetKey_idempotent [of "'' Touch_Your_Nose''"] show ?thesis
    by simp
qed

text \<open>
  C3 as stated fails on the key \<^verbatim>\<open>_a\<close>: its canonical form \<^verbatim>\<open> a\<close> begins with the
  space that the underscore became after the trim, and canonicalizing that form trims it.
\<close>

theorem targetKey_not_idempotent:
  "targetKey ''_a'' = '' a'' \<and> targetKey '' a'' = ''a''
   \<and> targetKey (targetKey ''_a'') \<noteq> targetKey ''_a''"
  by code_simp

section \<open>A final result without an alternative\<close>

text \<open>
  C4, amended. When the final result has a non-empty text and no first alternative (its
  alternatives absent or empty) and there is a current target, the feedback shows the
  verdict of its own, which is not Incorrect. When the text of the final result is empty
  or absent the result is not checked at all, and the feedback area keeps what it showed.
\<close>

theorem onfinalresult_no_alternative:
  "(has_text r \<longrightarrow> current_target s \<noteq> None \<longrightarrow> bestAlternative r = None \<longrightarrow>
      verdict_of (feedbackArea (snd (onfinalresult r failing s))) = Some Verdict_no_speech)
   \<and> (\<not> has_text r \<longrightarrow>
      feedbackArea (snd (onfinalresult r failing s)) = feedbackArea s)"
proof (intro conjI impI)
  assume h: "has_text r" and "current_target s \<noteq> None" and b: "bestAlternative r = None"
  then obtain w t where w: "result_text r = Some w" and t: "current_target s = Some t"
    using has_text_Some by blast
  have "fst (checkResult r s) = None"
    by (simp add: checkResult_no_alternative [OF w t b])
  then have "feedbackArea (snd (onfinalresult r failing s)) = feedbackArea (snd (checkResult r s))"
    by (rule onfinalresult_checked [OF h])
  then show "verdict_of (feedbackArea (snd (onfinalresult r failing s))) = Some Verdict_no_speech"
    by (simp add: checkResult_no_alternative [OF w t b] verdict_of_def)
next
  assume "\<not> has_text r"
  then show "feedbackArea (snd (onfinalresult r failing s)) = feedbackArea s"
    by (rule onfinalresult_unchecked)
qed

theorem onfinalresult_no_alternative_witness:
  "verdict_of (feedbackArea (snd (onfinalresult
       \<lparr>result_text = Some ''a'', alternatives = Some []\<rparr> [] (drill_on ''a''))))
     = Some Verdict_no_speech
   \<and> feedbackArea (snd (onfinalresult
       \<lparr>result_text = Some [], alternatives = None\<rparr> [] (drill_on ''a''))) = Page_markup
   \<and> feedbackArea (snd (onfinalresult
       \<lparr>result_text = None, alternatives = None\<rparr> [] (drill_on ''a''))) = Page_markup"
  using onfinalresult_no_alternative
          [of "\<lparr>result_text = Some ''a'', alternatives = Some []\<rparr>" "drill_on ''a''" "[]"]
        onfinalresult_no_alternative
          [of "\<lparr>result_text = Some [], alternatives = None\<rparr>" "drill_on ''a''" "[]"]
        onfinalresult_no_alternative
          [of "\<lparr>result_text = None, alternatives = None\<rparr>" "drill_on ''a''" "[]"]
  by (simp add: current_target_drill_on bestAlternative_def has_text_def)
     (simp add: drill_on_def initial_state_def)

text \<open>
  C4 as stated fails. A final result with an empty or absent text and no alternative, or
  with an empty text and an alternative whose text is empty, leaves the feedback without
  any verdict; a final result whose first alternative has an empty text gets the verdict
  Incorrect.
\<close>

theorem onfinalresult_empty_text:
  "verdict_of (feedbackArea (snd (onfinalresult
       \<lparr>result_text = Some [], alternatives = None\<rparr> [] (drill_on ''a'')))) = None
   \<and> verdict_of (feedbackArea (snd (onfinalresult
       \<lparr>result_text = None, alternatives = None\<rparr> [] (drill_on ''a'')))) = None
   \<and> verdict_of (feedbackArea (snd (onfinalresult (heard [] (Some 1)) [] (drill_on ''a'')))) = None
   \<and> verdict_of (feedbackArea (snd (onfinalresult
        \<lparr>result_text = Some ''a'', alternatives = Some [\<lparr>alt_text = [], alt_conf = Some 1\<rparr>]\<rparr> []
        (drill_on ''a'')))) = Some Verdict_incorrect"
proof -
  have n: "feedbackArea (drill_on ''a'') = Page_markup"
    by (simp add: drill_on_def initial_state_def)
  have "canonical_text [] \<noteq> targetKey ''a''" by code_simp
  then have "checkResult
        \<lparr>result_text = Some ''a'', alternatives = Some [\<lparr>alt_text = [], alt_conf = Some 1\<rparr>]\<rparr>
        (drill_on ''a'')
      = (None, (drill_on ''a'')\<lparr>feedbackArea := Try_again (canonical_text []) 1,
                 feedbackArea_color := Some ''red'',
                 transcriptArea := Text ''Recognition Complete.''\<rparr>)"
    by (simp add: checkResult_alt [OF _ current_target_drill_on] bestAlternative_def confidence_def)
  then have "verdict_of (feedbackArea (snd (onfinalresult
        \<lparr>result_text = Some ''a'', alternatives = Some [\<lparr>alt_text = [], alt_conf = Some 1\<rparr>]\<rparr> []
        (drill_on ''a'')))) = Some Verdict_incorrect"
    by (simp add: onfinalresult_checked has_text_def verdict_of_def)
  then show ?thesis
    by (simp add: onfinalresult_unchecked has_text_def heard_def n verdict_of_def)
qed

section \<open>Advancing through the targets\<close>

lemma updateTarget_index: "currentTargetIndex (snd (updateTarget s)) = currentTargetIndex s"
  by (simp add: updateTarget_def split: option.splits)

lemma updateTarget_targets: "targets (snd (updateTarget s)) = targets s"
  by (simp add: updateTarget_def split: option.splits)

lemma updateTarget_next_disabled:
  "nextButton_disabled (snd (updateTarget s)) = nextButton_disabled s"
  by (simp add: updateTarget_def split: option.splits)

lemma nextTarget_index:
  "currentTargetIndex (snd (nextTarget s))
     = next_index (currentTargetIndex s) (length (targets s))"
  by (simp add: nextTarget_def updateTarget_index)

lemma nextTarget_targets: "targets (snd (nextTarget s)) = targets s"
  by (simp add: nextTarget_def updateTarget_targets)

lemma advance_targets: "targets (advance n s) = targets s"
  by (induction n arbitrary: s) (simp_all add: nextTarget_targets)

lemma advance_index:
  assumes "targets s \<noteq> []" and "currentTargetIndex s = Num i" and "i < length (targets s)"
  shows "currentTargetIndex (advance n s) = Num ((i + n) mod length (targets s))"
  using assms
proof (induction n arbitrary: s i)
  case 0
  then show ?case by simp
next
  case (Suc n)
  let ?s = "snd (nextTarget s)"
  let ?N = "length (targets s)"
  from Suc.prems have N: "0 < ?N" by simp
  have t: "targets ?s = targets s" by (rule nextTarget_targets)
  from Suc.prems have i: "currentTargetIndex ?s = Num ((i + 1) mod ?N)"
    by (simp add: nextTarget_index next_index_def)
  have "currentTargetIndex (advance n ?s) = Num (((i + 1) mod ?N + n) mod length (targets ?s))"
    using Suc.prems N by (intro Suc.IH) (simp_all add: t i)
  then show ?case by (simp add: t mod_add_left_eq)
qed

text \<open>
  C5. With targets, of number N, Next sets an index i to (i + 1) modulo N; so from index 0
  the indices before the presses 1 to N are 0, 1, ..., N - 1 in this order, and after N
  presses the index is 0 again.
\<close>

theorem nextTarget_cyclic:
  assumes "targets s \<noteq> []"
  shows "(\<forall>i. currentTargetIndex s = Num i \<longrightarrow>
            currentTargetIndex (snd (nextTarget s)) = Num ((i + 1) mod length (targets s)))
         \<and> (currentTargetIndex s = Num 0 \<longrightarrow>
              map (\<lambda>n. currentTargetIndex (advance n s)) [0..<length (targets s)]
                = map Num [0..<length (targets s)]
              \<and> currentTargetIndex (advance (length (targets s)) s) = Num 0)"
proof (intro conjI allI impI)
  fix i assume "currentTargetIndex s = Num i"
  with assms show "currentTargetIndex (snd (nextTarget s)) = Num ((i + 1) mod length (targets s))"
    by (simp add: nextTarget_index next_index_def)
next
  assume z: "currentTargetIndex s = Num 0"
  with assms have a: "currentTargetIndex (advance n s) = Num (n mod length (targets s))" for n
    using advance_index [of s 0 n] by simp
  show "map (\<lambda>n. currentTargetIndex (advance n s)) [0..<length (targets s)]
          = map Num [0..<length (targets s)]"
    by (rule map_cong) (simp_all add: a)
  show "currentTargetIndex (advance (length (targets s)) s) = Num 0"
    by (simp add: a)
qed

lemma three_targets_loaded:
  "targets three_targets =
     [\<lparr>key = ''a'', display = ''b'', path = ''c'', category = ''d''\<rparr>,
      \<lparr>key = ''e'', display = ''f'', path = ''g'', category = ''h''\<rparr>,
      \<lparr>key = ''i'', display = ''j'', path = ''k'', category = ''l''\<rparr>]
   \<and> currentTargetIndex three_targets = Num 0"
  by code_simp

theorem nextTarget_cyclic_witness:
  "map (\<lambda>n. currentTargetIndex (advance n three_targets)) [0, 1, 2] = [Num 0, Num 1, Num 2]
   \<and> currentTargetIndex (advance 3 three_targets) = Num 0
   \<and> currentTargetIndex (snd (nextTarget (advance 2 three_targets))) = Num 0"
proof -
  have l: "length (targets three_targets) = 3" and z: "currentTargetIndex three_targets = Num 0"
    and n: "targets three_targets \<noteq> []"
    by (simp_all add: three_targets_loaded)
  have u: "[0..<3] = [0, 1, 2]" by (simp add: upt_rec)
  have "targets (advance 2 three_targets) \<noteq> []" "length (targets (advance 2 three_targets)) = 3"
    by (simp_all add: advance_targets three_targets_loaded)
  moreover have "currentTargetIndex (advance 2 three_targets) = Num 2"
    using advance_index [of three_targets 0 2] by (simp add: three_targets_loaded)
  ultimately have "currentTargetIndex (snd (nextTarget (advance 2 three_targets))) = Num 0"
    using nextTarget_cyclic [of "advance 2 three_targets"] by simp
  moreover from nextTarget_cyclic [OF n]
  have "map (\<lambda>n. currentTargetIndex (advance n three_targets)) [0, 1, 2] = [Num 0, Num 1, Num 2]
   \<and> currentTargetIndex (advance 3 three_targets) = Num 0"
    by (simp only: l z u) simp
  ultimately show ?thesis by simp
qed

section \<open>The grammar\<close>



section \<open>The index stays valid\<close>

lemma navigation_startRecognition: "navigation (startRecognition mic s) = navigation s"
  by (simp add: navigation_def startRecognition_def setupRecognizer_def Let_def
      split: option.splits mic_outcome.splits)

lemma navigation_stopRecognition: "navigation (snd (stopRecognition failing s)) = navigation s"
  by (simp add: navigation_def stopRecognition_def Let_def split: option.splits)

lemma navigation_checkResult: "navigation (snd (checkResult r s)) = navigation s"
  by (simp add: navigation_def checkResult_def Let_def split: option.splits)

lemma navigation_onfinalresult: "navigation (snd (onfinalresult r failing s)) = navigation s"
proof (cases "checkResult r s")
  case (Pair e s1)
  then have "navigation s1 = navigation s"
    using navigation_checkResult [of r s] by simp
  with Pair show ?thesis
    by (cases e) (simp_all add: onfinalresult_def navigation_stopRecognition)
qed

lemma navigation_onpartialresult: "navigation (onpartialresult p s) = navigation s"
  by (simp add: navigation_def onpartialresult_def)

lemma navigable_cong: "navigation s' = navigation s \<Longrightarrow> navigable s' = navigable s"
  by (auto simp: navigation_def navigable_def index_valid_def split: js_number.splits)

lemma index_valid_nextTarget: "index_valid s \<Longrightarrow> index_valid (snd (nextTarget s))"
  by (auto simp: index_valid_def nextTarget_index nextTarget_targets next_index_def
      split: js_number.splits)

lemma navigable_nextTarget:
  assumes "navigable s" and "\<not> nextButton_disabled s"
  shows "navigable (snd (nextTarget s))"
proof -
  from assms have "targets s \<noteq> []" and "index_valid s"
    by (auto simp: navigable_def split: if_splits)
  then show ?thesis
    using index_valid_nextTarget [of s] by (simp add: navigable_def nextTarget_targets)
qed

lemma navigable_handle: "navigable s \<Longrightarrow> navigable (handle ev s)"
proof (cases ev)
  case (Click_start mic)
  assume "navigable s"
  with Click_start show ?thesis
    by (simp add: handle_def navigable_cong [OF navigation_startRecognition])
next
  case Click_next
  assume "navigable s"
  with Click_next show ?thesis
    by (simp add: handle_def navigable_nextTarget)
next
  case (Final_result r failing)
  assume "navigable s"
  with Final_result show ?thesis
    by (simp add: handle_def navigable_cong [OF navigation_onfinalresult] split: option.splits)
next
  case (Partial_result p)
  assume "navigable s"
  with Partial_result show ?thesis
    by (simp add: handle_def navigable_cong [OF navigation_onpartialresult] split: option.splits)
qed

lemma navigable_fold: "navigable s \<Longrightarrow> navigable (fold handle evs s)"
  by (induction evs arbitrary: s) (simp_all add: navigable_handle)

lemma before_load_handle: "before_load s \<Longrightarrow> before_load (handle ev s)"
  by (cases ev)
     (auto simp: before_load_def handle_def startRecognition_def setupRecognizer_def)

lemma before_load_fold: "before_load s \<Longrightarrow> before_load (fold handle evs s)"
  by (induction evs arbitrary: s) (simp_all add: before_load_handle)

lemma index_valid_loadTargets:
  "currentTargetIndex s = Num 0 \<Longrightarrow> index_valid (loadTargets f s)"
  by (cases f) (auto simp: loadTargets_def index_valid_def Let_def)

lemma navigable_loadTargets: "before_load s \<Longrightarrow> navigable (loadTargets f s)"
  by (cases f) (auto simp: loadTargets_def before_load_def navigable_def index_valid_def Let_def)

lemma navigable_window_load:
  assumes "before_load s"
  shows "navigable (snd (window_load f s))"
proof -
  have "navigable (snd (updateTarget (loadTargets f s))) = navigable (loadTargets f s)"
    by (rule navigable_cong)
       (simp add: navigation_def updateTarget_index updateTarget_targets updateTarget_next_disabled)
  moreover from assms have "navigable (loadTargets f s)"
    by (rule navigable_loadTargets)
  ultimately show ?thesis
    by (simp add: window_load_def)
qed

lemma navigable_index_valid: "navigable s \<Longrightarrow> index_valid s"
  by (simp add: navigable_def index_valid_def split: if_splits)

lemma loadTargets_index: "currentTargetIndex (loadTargets f s) = currentTargetIndex s"
  by (cases f) (simp_all add: loadTargets_def Let_def)

lemma targets_loadTargets: "targets (loadTargets (Response True txt) s) = parse_targets txt"
  by (simp add: loadTargets_def Let_def)

lemma index_valid_loadTargets_iff:
  "index_valid (loadTargets (Response True txt) s) \<longleftrightarrow>
     parse_targets txt = []
     \<or> (case currentTargetIndex s of NaN \<Rightarrow> False | Num i \<Rightarrow> i < length (parse_targets txt))"
  by (simp add: index_valid_def loadTargets_index targets_loadTargets split: js_number.splits)

text \<open>
  C7, amended. On a page whose markup disables Next, whatever is clicked or recognized
  before and after the target file arrives, and however the fetch of the file ends, the
  current index is a valid index whenever there are targets. Next keeps the index valid in
  any state. Loading never writes the index: after a fetched text is loaded the index is
  valid exactly when the text has no valid line or the index is a number below the number
  of its valid lines, so whenever the index is 0, as it is when the load listener runs.
\<close>

theorem index_valid_session:
  "index_valid (session pre f post (initial_state start_disabled True))
   \<and> (index_valid s \<longrightarrow> index_valid (snd (nextTarget s)))
   \<and> (currentTargetIndex s = Num 0 \<longrightarrow> index_valid (loadTargets f s))
   \<and> currentTargetIndex (loadTargets f s) = currentTargetIndex s
   \<and> (index_valid (loadTargets (Response True txt) s) \<longleftrightarrow>
         parse_targets txt = []
         \<or> (case currentTargetIndex s of
               NaN \<Rightarrow> False
             | Num i \<Rightarrow> i < length (parse_targets txt)))"
proof (intro conjI impI)
  have "before_load (initial_state start_disabled True)"
    by (simp add: before_load_def initial_state_def)
  then have "before_load (fold handle pre (initial_state start_disabled True))"
    by (rule before_load_fold)
  then have "navigable (snd (window_load f (fold handle pre (initial_state start_disabled True))))"
    by (rule navigable_window_load)
  then have "navigable (session pre f post (initial_state start_disabled True))"
    unfolding session_def by (rule navigable_fold)
  then show "index_valid (session pre f post (initial_state start_disabled True))"
    by (rule navigable_index_valid)
  show "currentTargetIndex (loadTargets f s) = currentTargetIndex s"
    by (rule loadTargets_index)
  show "index_valid (loadTargets (Response True txt) s) \<longleftrightarrow>
         parse_targets txt = []
         \<or> (case currentTargetIndex s of
               NaN \<Rightarrow> False
             | Num i \<Rightarrow> i < length (parse_targets txt))"
    by (rule index_valid_loadTargets_iff)
next
  assume "index_valid s"
  then show "index_valid (snd (nextTarget s))" by (rule index_valid_nextTarget)
next
  assume "currentTargetIndex s = Num 0"
  then show "index_valid (loadTargets f s)" by (rule index_valid_loadTargets)
qed

theorem index_valid_session_witness:
  "length (targets browsing) = 2
   \<and> index_valid browsing
   \<and> index_valid (snd (nextTarget browsing))
   \<and> index_valid (loadTargets (Response True two_lines) (initial_state False True))
   \<and> currentTargetIndex (snd (nextTarget three_targets)) = Num 1
   \<and> index_valid (loadTargets (Response True two_lines) (snd (nextTarget three_targets)))"
proof -
  have l: "length (targets browsing) = 2"
    by code_simp
  have z: "currentTargetIndex (initial_state False True) = Num 0"
    by (simp add: initial_state_def)
  have n: "currentTargetIndex (snd (nextTarget three_targets)) = Num 1"
    by code_simp
  have p: "length (parse_targets two_lines) = 2"
    by code_simp
  from index_valid_session [of "[Click_next]" "Response True two_lines"
      "[Click_next, Click_start Granted, Click_next, Click_next]" False browsing]
    index_valid_session [of "[Click_next]" "Response True two_lines"
      "[Click_next, Click_start Granted, Click_next, Click_next]" False "initial_state False True"]
    index_valid_session [of "[]" "Response True two_lines" "[]" False
      "snd (nextTarget three_targets)" two_lines]
  show ?thesis
    by (simp add: l z n p browsing_def [symmetric])
qed

text \<open>
  C7 as stated fails in two ways. Loading does not preserve the invariant: at index 2 of
  three targets the index is valid, and after a file of one line is loaded there it is not.
  And on a page whose markup leaves Next enabled, a click on Next before the file arrives
  makes the index \<^verbatim>\<open>NaN\<close>, which is no index of the one target loaded afterwards.
\<close>

theorem index_invalid_after_load:
  "currentTargetIndex (advance 2 three_targets) = Num 2
   \<and> length (targets (advance 2 three_targets)) = 3
   \<and> index_valid (advance 2 three_targets)
   \<and> length (targets (loadTargets (Response True ''a,b,c,d'') (advance 2 three_targets))) = 1
   \<and> currentTargetIndex (loadTargets (Response True ''a,b,c,d'') (advance 2 three_targets)) = Num 2
   \<and> \<not> index_valid (loadTargets (Response True ''a,b,c,d'') (advance 2 three_targets))
   \<and> length (targets (session [Click_next] (Response True ''a,b,c,d'') []
                        (initial_state False False))) = 1
   \<and> currentTargetIndex (session [Click_next] (Response True ''a,b,c,d'') []
                        (initial_state False False)) = NaN
   \<and> \<not> index_valid (session [Click_next] (Response True ''a,b,c,d'') []
                        (initial_state False False))"
  by code_simp

section \<open>A recognizer has a target to check against\<close>

lemma recognizer_updateTarget: "recognizer (snd (updateTarget s)) = recognizer s"
  by (simp add: updateTarget_def split: option.splits)

lemma recognizer_nextTarget: "recognizer (snd (nextTarget s)) = recognizer s"
  by (simp add: nextTarget_def recognizer_updateTarget)

lemma recognizer_stopRecognition: "recognizer (snd (stopRecognition failing s)) = recognizer s"
  by (simp add: stopRecognition_def Let_def split: option.splits)

lemma recognizer_checkResult: "recognizer (snd (checkResult r s)) = recognizer s"
  by (simp add: checkResult_def Let_def split: option.splits)

lemma recognizer_onfinalresult: "recognizer (snd (onfinalresult r failing s)) = recognizer s"
proof (cases "checkResult r s")
  case (Pair e s1)
  then have "recognizer s1 = recognizer s"
    using recognizer_checkResult [of r s] by simp
  with Pair show ?thesis
    by (cases e) (simp_all add: onfinalresult_def recognizer_stopRecognition)
qed

lemma recognizer_startRecognition:
  "recognizer (startRecognition mic s) \<noteq> None \<Longrightarrow> recognizer s \<noteq> None \<or> targets s \<noteq> []"
  by (auto simp: startRecognition_def setupRecognizer_def split: option.splits if_splits)

lemma targets_handle: "targets (handle ev s) = targets s"
proof -
  have "navigation (handle ev s) = navigation s \<or> handle ev s = snd (nextTarget s)"
    by (cases ev)
       (auto simp: handle_def navigation_startRecognition navigation_onfinalresult
          navigation_onpartialresult split: option.splits)
  then show ?thesis
    by (auto simp: navigation_def nextTarget_targets)
qed

lemma recognizer_needs_targets_handle:
  assumes "recognizer s \<noteq> None \<longrightarrow> targets s \<noteq> []"
  shows "recognizer (handle ev s) \<noteq> None \<longrightarrow> targets (handle ev s) \<noteq> []"
proof (cases ev)
  case (Click_start mic)
  with assms recognizer_startRecognition [of mic s] show ?thesis
    unfolding targets_handle by (auto simp: handle_def)
next
  case Click_next
  with assms show ?thesis
    unfolding targets_handle by (simp add: handle_def recognizer_nextTarget)
next
  case (Final_result r failing)
  with assms show ?thesis
    unfolding targets_handle
    by (simp add: handle_def recognizer_onfinalresult split: option.splits)
next
  case (Partial_result p)
  with assms show ?thesis
    unfolding targets_handle
    by (simp add: handle_def onpartialresult_def split: option.splits)
qed

lemma recognizer_needs_targets_fold:
  "recognizer s \<noteq> None \<longrightarrow> targets s \<noteq> [] \<Longrightarrow>
   recognizer (fold handle evs s) \<noteq> None \<longrightarrow> targets (fold handle evs s) \<noteq> []"
  by (induction evs arbitrary: s) (simp_all add: recognizer_needs_targets_handle)

lemma recognizer_window_load:
  assumes "before_load s"
  shows "recognizer (snd (window_load f s)) = None"
  using assms
  by (cases f)
     (simp_all add: window_load_def recognizer_updateTarget loadTargets_def before_load_def Let_def)

text \<open>
  On a page whose markup disables Next, whenever the recognizer exists there is a current
  target: the handler of a final result never reads an undefined target.
\<close>

lemma recognizer_has_target:
  assumes "recognizer (session pre f post (initial_state start_disabled True)) \<noteq> None"
  shows "current_target (session pre f post (initial_state start_disabled True)) \<noteq> None"
proof -
  define s0 where "s0 = fold handle pre (initial_state start_disabled True)"
  define s where "s = session pre f post (initial_state start_disabled True)"
  have "before_load (initial_state start_disabled True)"
    by (simp add: before_load_def initial_state_def)
  then have b: "before_load s0"
    unfolding s0_def by (rule before_load_fold)
  then have "recognizer (snd (window_load f s0)) = None"
    by (rule recognizer_window_load)
  then have "recognizer (snd (window_load f s0)) \<noteq> None \<longrightarrow> targets (snd (window_load f s0)) \<noteq> []"
    by simp
  then have "recognizer s \<noteq> None \<longrightarrow> targets s \<noteq> []"
    unfolding s_def session_def s0_def by (rule recognizer_needs_targets_fold)
  with assms have t: "targets s \<noteq> []" by (simp add: s_def)
  from b have "navigable (snd (window_load f s0))"
    by (rule navigable_window_load)
  then have "navigable s"
    unfolding s_def session_def s0_def by (rule navigable_fold)
  with t have "index_valid s" by (simp add: navigable_def)
  with t show ?thesis
    by (auto simp: s_def [symmetric] index_valid_def current_target_def split: js_number.splits)
qed

section \<open>Tearing the capture down\<close>

lemma listening_pipeline:
  "audioContext listening = Some 0 \<and> mediaStream listening = Some 1
   \<and> processor listening = Some 2
   \<and> effects listening
       = [Context_created 0, Stream_acquired 1, Processor_created 2, Recognizer_reset]
   \<and> startButton_disabled listening \<and> \<not> nextButton_disabled listening"
  by code_simp

text \<open>
  C8, amended. With a media stream, a processor and an audio context set, the teardown
  makes its three calls in order: all three when none throws; and when one throws, the
  calls before it have been made, the error leaves the function and the calls after it
  are not made.
\<close>

theorem stopRecognition_steps:
  assumes "mediaStream s = Some m" and "processor s = Some p" and "audioContext s = Some c"
  shows "stopRecognition failing s =
     (if Stop_tracks \<in> set failing
      then (Some (Step_failed Stop_tracks), s\<lparr>startButton_disabled := False\<rparr>)
      else if Disconnect_processor \<in> set failing
      then (Some (Step_failed Disconnect_processor),
            s\<lparr>startButton_disabled := False, effects := effects s @ [Tracks_stopped m]\<rparr>)
      else if Close_context \<in> set failing
      then (Some (Step_failed Close_context),
            s\<lparr>startButton_disabled := False,
              effects := effects s @ [Tracks_stopped m, Processor_disconnected p]\<rparr>)
      else (None,
            s\<lparr>startButton_disabled := False,
              effects := effects s @ [Tracks_stopped m, Processor_disconnected p, Context_closed c]\<rparr>))"
  using assms by (simp add: stopRecognition_def Let_def)

theorem stopRecognition_steps_witness:
  "fst (stopRecognition [] listening) = None
   \<and> effects (snd (stopRecognition [] listening))
       = [Context_created 0, Stream_acquired 1, Processor_created 2, Recognizer_reset,
          Tracks_stopped 1, Processor_disconnected 2, Context_closed 0]
   \<and> fst (stopRecognition [Close_context] listening) = Some (Step_failed Close_context)
   \<and> effects (snd (stopRecognition [Close_context] listening))
       = [Context_created 0, Stream_acquired 1, Processor_created 2, Recognizer_reset,
          Tracks_stopped 1, Processor_disconnected 2]"
  using stopRecognition_steps [of listening 1 2 0 "[]"]
        stopRecognition_steps [of listening 1 2 0 "[Close_context]"]
  by (simp add: listening_pipeline)

text \<open>
  C8 as stated fails: when stopping the tracks throws, the processor and the audio context
  of the capture are set, and neither is the processor disconnected nor the context closed.
\<close>

theorem stopRecognition_skips_later_steps:
  "fst (stopRecognition [Stop_tracks] listening) = Some (Step_failed Stop_tracks)
   \<and> processor listening = Some 2
   \<and> audioContext listening = Some 0
   \<and> Processor_disconnected 2 \<notin> set (effects (snd (stopRecognition [Stop_tracks] listening)))
   \<and> Context_closed 0 \<notin> set (effects (snd (stopRecognition [Stop_tracks] listening)))"
  by (simp add: stopRecognition_def listening_pipeline)

section \<open>Starting while a capture is in progress\<close>

text \<open>A click on Start while the button is disabled changes nothing.\<close>

lemma click_start_disabled: "startButton_disabled s \<Longrightarrow> handle (Click_start mic) s = s"
  by (simp add: handle_def)

text \<open>
  C9 fails on the code. While a capture is in progress a click on Next enables Start again,
  the capture staying in progress; the click on Start that follows creates a second audio
  context, media stream and processor, which replace the first ones, and the first ones
  are never stopped, disconnected or closed.
\<close>

theorem start_again_while_capturing:
  "capturing listening
   \<and> capturing (handle Click_next listening)
   \<and> audioContext (handle Click_next listening) = Some 0
   \<and> mediaStream (handle Click_next listening) = Some 1
   \<and> processor (handle Click_next listening) = Some 2
   \<and> audioContext (handle (Click_start Granted) (handle Click_next listening)) = Some 3
   \<and> mediaStream (handle (Click_start Granted) (handle Click_next listening)) = Some 4
   \<and> processor (handle (Click_start Granted) (handle Click_next listening)) = Some 5
   \<and> effects (handle (Click_start Granted) (handle Click_next listening))
       = [Context_created 0, Stream_acquired 1, Processor_created 2, Recognizer_reset,
          Context_created 3, Stream_acquired 4, Processor_created 5, Recognizer_reset]"
  by code_simp

section \<open>An alternative without a confidence\<close>




end
